theory Spec2Isabelle
  imports Complex_Main "HOL-Library.Multiset"
begin

section \<open>Data model\<close>

text \<open>
  The engine exists twice in the repository: \<open>lib/ai\<close> (material-only evaluation,
  shuffled candidates) and \<open>lib/chessAI\<close> (piece-square tables, two selection loops).
  Definitions carry the suffix \<open>_ai\<close> or \<open>_chessAI\<close> accordingly.
\<close>

datatype color = White | Black

datatype piece_type = Pawn | Knight | Bishop | Rook | Queen | King

record piece =
  ptype :: piece_type
  pcolor :: color

datatype Difficulty = Beginner | Easy | Hard | Master

subsection \<open>JavaScript numbers used as search bounds\<close>

text \<open>
  Scores are small integers, exactly representable as doubles. The bounds \<open>alpha\<close>,
  \<open>beta\<close> and \<open>bestValFound\<close> may also be \<open>-Infinity\<close> or \<open>Infinity\<close>.
\<close>

datatype jsnum = NegInfinity | Num int | Infinity

instantiation jsnum :: linorder
begin

fun less_eq_jsnum :: "jsnum \<Rightarrow> jsnum \<Rightarrow> bool" where
  "less_eq_jsnum NegInfinity y = True"
| "less_eq_jsnum (Num a) NegInfinity = False"
| "less_eq_jsnum (Num a) (Num b) = (a \<le> b)"
| "less_eq_jsnum (Num a) Infinity = True"
| "less_eq_jsnum Infinity Infinity = True"
| "less_eq_jsnum Infinity y = False"

definition less_jsnum :: "jsnum \<Rightarrow> jsnum \<Rightarrow> bool" where
  "less_jsnum x y = (x \<le> y \<and> \<not> y \<le> x)"

instance
proof
  fix x y z :: jsnum
  show "(x < y) = (x \<le> y \<and> \<not> y \<le> x)"
    by (simp add: less_jsnum_def)
  show "x \<le> x"
    by (cases x) simp_all
  show "x \<le> y \<Longrightarrow> y \<le> z \<Longrightarrow> x \<le> z"
    by (cases x; cases y; cases z) simp_all
  show "x \<le> y \<Longrightarrow> y \<le> x \<Longrightarrow> x = y"
    by (cases x; cases y) simp_all
  show "x \<le> y \<or> y \<le> x"
    by (cases x; cases y) auto
qed

end

subsection \<open>The rules engine and the game object\<close>

text \<open>
  The rules engine (chess.js) is external. It is a parameter: a record of the queries the
  engine code calls, over an arbitrary type \<open>'p\<close> of positions. \<open>board\<close> is the 8x8 array
  returned by \<open>game.board()\<close>, read at row \<open>i\<close> and column \<open>j\<close>, both below 8.
  Moves are the strings returned by \<open>game.moves()\<close>.
\<close>

record 'p rules =
  moves :: "'p \<Rightarrow> string list"
  applyMove :: "'p \<Rightarrow> string \<Rightarrow> 'p"
  isGameOver :: "'p \<Rightarrow> bool"
  board :: "'p \<Rightarrow> nat \<Rightarrow> nat \<Rightarrow> piece option"
  turn :: "'p \<Rightarrow> color"

text \<open>
  The \<open>Chess\<close> object is mutable: \<open>game.move(m)\<close> steps to the next position and pushes the
  old one on the history, \<open>game.undo()\<close> pops it (and does nothing on an empty history).
\<close>

record 'p game =
  cur :: 'p
  hist :: "'p list"

definition move :: "'p rules \<Rightarrow> 'p game \<Rightarrow> string \<Rightarrow> 'p game" where
  "move R g m = \<lparr>cur = applyMove R (cur g) m, hist = cur g # hist g\<rparr>"

definition undo :: "'p game \<Rightarrow> 'p game" where
  "undo g = (case hist g of [] \<Rightarrow> g | p # ps \<Rightarrow> \<lparr>cur = p, hist = ps\<rparr>)"

subsection \<open>Randomness\<close>

text \<open>
  \<open>random_draw\<close> is the value of the single \<open>Math.random()\<close> call of the Beginner tier;
  \<open>sort_outcome\<close> is what \<open>moves.sort(() => Math.random() - 0.5)\<close> leaves in the array
  for the random sequence of this run.
\<close>

record random_source =
  random_draw :: real
  sort_outcome :: "string list \<Rightarrow> string list"

text \<open>\<open>moves[Math.floor(Math.random() * moves.length)]\<close>; out of range reads \<open>undefined\<close>.\<close>

definition random_pick :: "real \<Rightarrow> string list \<Rightarrow> string option" where
  "random_pick u ms =
     (let randomIndex = \<lfloor>u * real (length ms)\<rfloor>
      in if 0 \<le> randomIndex \<and> randomIndex < int (length ms)
         then Some (ms ! nat randomIndex) else None)"

section \<open>Evaluator\<close>

definition PIECE_VALUES :: "piece_type \<rightharpoonup> int" where
  "PIECE_VALUES = [Pawn \<mapsto> 10, Knight \<mapsto> 30, Bishop \<mapsto> 30, Rook \<mapsto> 50,
                   Queen \<mapsto> 90, King \<mapsto> 900]"

text \<open>\<open>PIECE_VALUES[piece.type] || 0\<close>\<close>

definition piece_value :: "piece_type \<Rightarrow> int" where
  "piece_value t = (case PIECE_VALUES t of None \<Rightarrow> 0 | Some v \<Rightarrow> v)"

definition PST_p :: "int list" where
  "PST_p =
    [0,  0,  0,  0,  0,  0,  0,  0,
     5,  5,  5, -5, -5,  5,  5,  5,
     5, -5, -10,  0,  0, -10, -5,  5,
     0,  0,  0, 20, 20,  0,  0,  0,
     5,  5, 10, 25, 25, 10,  5,  5,
     10, 10, 20, 30, 30, 20, 10, 10,
     50, 50, 50, 50, 50, 50, 50, 50,
     0,  0,  0,  0,  0,  0,  0,  0]"

definition PST_n :: "int list" where
  "PST_n =
    [-50,-40,-30,-30,-30,-30,-40,-50,
     -40,-20,  0,  5,  5,  0,-20,-40,
     -30,  5, 10, 15, 15, 10,  5,-30,
     -30,  0, 15, 20, 20, 15,  0,-30,
     -30,  5, 15, 20, 20, 15,  5,-30,
     -30,  0, 10, 15, 15, 10,  0,-30,
     -40,-20,  0,  0,  0,  0,-20,-40,
     -50,-40,-30,-30,-30,-30,-40,-50]"

definition PST :: "piece_type \<rightharpoonup> int list" where
  "PST = [Pawn \<mapsto> PST_p, Knight \<mapsto> PST_n]"

text \<open>\<open>PST[piece.type]?.[k] || 0\<close>\<close>

definition pst_lookup :: "piece_type \<Rightarrow> nat \<Rightarrow> int" where
  "pst_lookup t k =
     (case PST t of None \<Rightarrow> 0
      | Some tab \<Rightarrow> (if k < length tab then tab ! k else 0))"

definition posScore :: "piece \<Rightarrow> nat \<Rightarrow> nat \<Rightarrow> int" where
  "posScore pc i j =
     (if ptype pc = Pawn \<or> ptype pc = Knight
      then (if pcolor pc = White then pst_lookup (ptype pc) (i * 8 + j)
            else pst_lookup (ptype pc) ((7 - i) * 8 + j))
      else 0)"

text \<open>The body of the inner loop of \<open>evaluateBoard\<close>, for the square at row \<open>i\<close>, column \<open>j\<close>.\<close>

definition square_chessAI :: "(nat \<Rightarrow> nat \<Rightarrow> piece option) \<Rightarrow> nat \<Rightarrow> nat \<Rightarrow> int \<Rightarrow> int" where
  "square_chessAI b i j totalEvaluation =
     (case b i j of
        None \<Rightarrow> totalEvaluation
      | Some pc \<Rightarrow>
          totalEvaluation
            + (piece_value (ptype pc) + posScore pc i j) * (if pcolor pc = White then 1 else -1))"

definition evaluateBoard_chessAI :: "'p rules \<Rightarrow> 'p \<Rightarrow> int" where
  "evaluateBoard_chessAI R p =
     (let b = board R p
      in fold (\<lambda>i tot. fold (\<lambda>j tot'. square_chessAI b i j tot') [0..<8] tot) [0..<8] 0)"

definition square_ai :: "(nat \<Rightarrow> nat \<Rightarrow> piece option) \<Rightarrow> nat \<Rightarrow> nat \<Rightarrow> int \<Rightarrow> int" where
  "square_ai b i j totalEvaluation =
     (case b i j of
        None \<Rightarrow> totalEvaluation
      | Some pc \<Rightarrow>
          totalEvaluation
            + (if pcolor pc = White then piece_value (ptype pc) else - piece_value (ptype pc)))"

definition evaluateBoard_ai :: "'p rules \<Rightarrow> 'p \<Rightarrow> int" where
  "evaluateBoard_ai R p =
     (let b = board R p
      in fold (\<lambda>i tot. fold (\<lambda>j tot'. square_ai b i j tot') [0..<8] tot) [0..<8] 0)"

section \<open>Search engine\<close>

subsection \<open>\<open>minimax\<close> of \<open>lib/chessAI\<close>\<close>

text \<open>
  \<open>depth\<close> is a natural number: every call in the repository passes 0, 1, 2 or 3, and
  the recursion stops at 0.

  The two \<open>for\<close> loops of \<open>minimax\<close>, over the remaining moves. \<open>child g a b\<close> is the
  recursive call on the game object after \<open>game.move(move)\<close>; it returns the score and the
  game object it leaves behind. The loop returns \<open>bestEval\<close> and the game object.
\<close>

primrec maxLoop_chessAI ::
  "'p rules \<Rightarrow> ('p game \<Rightarrow> jsnum \<Rightarrow> jsnum \<Rightarrow> int \<times> 'p game) \<Rightarrow> string list
     \<Rightarrow> int \<Rightarrow> jsnum \<Rightarrow> jsnum \<Rightarrow> 'p game \<Rightarrow> int \<times> 'p game" where
  "maxLoop_chessAI R child [] bestEval alpha beta g = (bestEval, g)"
| "maxLoop_chessAI R child (m # ms) bestEval alpha beta g =
     (let g1 = move R g m;
          (ev, g2) = child g1 alpha beta;
          g3 = undo g2;
          bestEval' = max bestEval ev;
          alpha' = max alpha (Num ev)
      in if beta \<le> alpha' then (bestEval', g3)
         else maxLoop_chessAI R child ms bestEval' alpha' beta g3)"

primrec minLoop_chessAI ::
  "'p rules \<Rightarrow> ('p game \<Rightarrow> jsnum \<Rightarrow> jsnum \<Rightarrow> int \<times> 'p game) \<Rightarrow> string list
     \<Rightarrow> int \<Rightarrow> jsnum \<Rightarrow> jsnum \<Rightarrow> 'p game \<Rightarrow> int \<times> 'p game" where
  "minLoop_chessAI R child [] bestEval alpha beta g = (bestEval, g)"
| "minLoop_chessAI R child (m # ms) bestEval alpha beta g =
     (let g1 = move R g m;
          (ev, g2) = child g1 alpha beta;
          g3 = undo g2;
          bestEval' = min bestEval ev;
          beta' = min beta (Num ev)
      in if beta' \<le> alpha then (bestEval', g3)
         else minLoop_chessAI R child ms bestEval' alpha beta' g3)"

fun minimax_chessAI ::
  "'p rules \<Rightarrow> 'p game \<Rightarrow> nat \<Rightarrow> jsnum \<Rightarrow> jsnum \<Rightarrow> bool \<Rightarrow> int \<times> 'p game" where
  "minimax_chessAI R g 0 alpha beta isMaximizingPlayer =
     (- evaluateBoard_chessAI R (cur g), g)"
| "minimax_chessAI R g (Suc d) alpha beta isMaximizingPlayer =
     (if isGameOver R (cur g) then (- evaluateBoard_chessAI R (cur g), g)
      else
        let ms = moves R (cur g)
        in if isMaximizingPlayer
           then maxLoop_chessAI R
                  (\<lambda>g' a b. minimax_chessAI R g' d a b (\<not> isMaximizingPlayer))
                  ms (-99999) alpha beta g
           else minLoop_chessAI R
                  (\<lambda>g' a b. minimax_chessAI R g' d a b (\<not> isMaximizingPlayer))
                  ms 99999 alpha beta g)"

subsection \<open>\<open>minimax\<close> of \<open>lib/ai\<close>\<close>

text \<open>Here \<open>alpha\<close> and \<open>beta\<close> follow \<open>bestEval\<close>, and the sentinels are 9999.\<close>

primrec maxLoop_ai ::
  "'p rules \<Rightarrow> ('p game \<Rightarrow> jsnum \<Rightarrow> jsnum \<Rightarrow> int \<times> 'p game) \<Rightarrow> string list
     \<Rightarrow> int \<Rightarrow> jsnum \<Rightarrow> jsnum \<Rightarrow> 'p game \<Rightarrow> int \<times> 'p game" where
  "maxLoop_ai R child [] bestEval alpha beta g = (bestEval, g)"
| "maxLoop_ai R child (m # ms) bestEval alpha beta g =
     (let g1 = move R g m;
          (ev, g2) = child g1 alpha beta;
          bestEval' = max bestEval ev;
          g3 = undo g2;
          alpha' = max alpha (Num bestEval')
      in if beta \<le> alpha' then (bestEval', g3)
         else maxLoop_ai R child ms bestEval' alpha' beta g3)"

primrec minLoop_ai ::
  "'p rules \<Rightarrow> ('p game \<Rightarrow> jsnum \<Rightarrow> jsnum \<Rightarrow> int \<times> 'p game) \<Rightarrow> string list
     \<Rightarrow> int \<Rightarrow> jsnum \<Rightarrow> jsnum \<Rightarrow> 'p game \<Rightarrow> int \<times> 'p game" where
  "minLoop_ai R child [] bestEval alpha beta g = (bestEval, g)"
| "minLoop_ai R child (m # ms) bestEval alpha beta g =
     (let g1 = move R g m;
          (ev, g2) = child g1 alpha beta;
          bestEval' = min bestEval ev;
          g3 = undo g2;
          beta' = min beta (Num bestEval')
      in if beta' \<le> alpha then (bestEval', g3)
         else minLoop_ai R child ms bestEval' alpha beta' g3)"

fun minimax_ai ::
  "'p rules \<Rightarrow> 'p game \<Rightarrow> nat \<Rightarrow> jsnum \<Rightarrow> jsnum \<Rightarrow> bool \<Rightarrow> int \<times> 'p game" where
  "minimax_ai R g 0 alpha beta isMaximizingPlayer = (- evaluateBoard_ai R (cur g), g)"
| "minimax_ai R g (Suc d) alpha beta isMaximizingPlayer =
     (if isGameOver R (cur g) then (- evaluateBoard_ai R (cur g), g)
      else
        let ms = moves R (cur g)
        in if isMaximizingPlayer
           then maxLoop_ai R (\<lambda>g' a b. minimax_ai R g' d a b False) ms (-9999) alpha beta g
           else minLoop_ai R (\<lambda>g' a b. minimax_ai R g' d a b True) ms 9999 alpha beta g)"

section \<open>Move selector\<close>

subsection \<open>\<open>getBestMove\<close> of \<open>lib/chessAI\<close>\<close>

fun depth_chessAI :: "Difficulty \<Rightarrow> nat" where
  "depth_chessAI Easy = 1"
| "depth_chessAI Hard = 3"
| "depth_chessAI Master = 3"
| "depth_chessAI Beginner = 1"

text \<open>
  The first scoring loop. \<open>dm1\<close> is \<open>depth - 1\<close>. For Black the body of the \<open>else\<close> branch
  holds comments only.
\<close>

primrec firstLoop_chessAI ::
  "'p rules \<Rightarrow> nat \<Rightarrow> bool \<Rightarrow> string list \<Rightarrow> string option \<Rightarrow> int \<Rightarrow> 'p game
     \<Rightarrow> string option \<times> int \<times> 'p game" where
  "firstLoop_chessAI R dm1 isWhite [] bestMove bestValue g = (bestMove, bestValue, g)"
| "firstLoop_chessAI R dm1 isWhite (m # ms) bestMove bestValue g =
     (let g1 = move R g m;
          (boardValue, g2) =
             minimax_chessAI R g1 dm1 (Num (-100000)) (Num 100000) (\<not> isWhite);
          g3 = undo g2
      in if isWhite \<and> boardValue > bestValue
         then firstLoop_chessAI R dm1 isWhite ms (Some m) boardValue g3
         else firstLoop_chessAI R dm1 isWhite ms bestMove bestValue g3)"

text \<open>The loop that is run again after it, with infinite starting bounds.\<close>

primrec rerunLoop_chessAI ::
  "'p rules \<Rightarrow> nat \<Rightarrow> bool \<Rightarrow> string list \<Rightarrow> string \<Rightarrow> jsnum \<Rightarrow> 'p game
     \<Rightarrow> string \<times> jsnum \<times> 'p game" where
  "rerunLoop_chessAI R dm1 isWhite [] bestMoveFound bestValFound g =
     (bestMoveFound, bestValFound, g)"
| "rerunLoop_chessAI R dm1 isWhite (m # ms) bestMoveFound bestValFound g =
     (let g1 = move R g m;
          (val, g2) = minimax_chessAI R g1 dm1 NegInfinity Infinity (\<not> isWhite);
          g3 = undo g2
      in if isWhite
         then (if Num val > bestValFound
               then rerunLoop_chessAI R dm1 isWhite ms m (Num val) g3
               else rerunLoop_chessAI R dm1 isWhite ms bestMoveFound bestValFound g3)
         else (if Num val < bestValFound
               then rerunLoop_chessAI R dm1 isWhite ms m (Num val) g3
               else rerunLoop_chessAI R dm1 isWhite ms bestMoveFound bestValFound g3))"

definition getBestMove_chessAI ::
  "'p rules \<Rightarrow> random_source \<Rightarrow> 'p game \<Rightarrow> Difficulty \<Rightarrow> string option \<times> 'p game" where
  "getBestMove_chessAI R rnd g difficulty =
     (let possibleMoves = moves R (cur g)
      in if length possibleMoves = 0 then (None, g)
         else if difficulty = Beginner
         then (random_pick (random_draw rnd) possibleMoves, g)
         else
           let depth = depth_chessAI difficulty;
               isWhite = (turn R (cur g) = White);
               (bestMove, bestValue, g1) =
                  firstLoop_chessAI R (depth - 1) isWhite possibleMoves None (-99999) g;
               (bestMoveFound, bestValFound, g2) =
                  rerunLoop_chessAI R (depth - 1) isWhite possibleMoves (hd possibleMoves)
                    (if isWhite then NegInfinity else Infinity) g1
           in (Some bestMoveFound, g2))"

text \<open>The same function with the first scoring loop deleted.\<close>

definition getBestMove_chessAI_rerun_only ::
  "'p rules \<Rightarrow> random_source \<Rightarrow> 'p game \<Rightarrow> Difficulty \<Rightarrow> string option \<times> 'p game" where
  "getBestMove_chessAI_rerun_only R rnd g difficulty =
     (let possibleMoves = moves R (cur g)
      in if length possibleMoves = 0 then (None, g)
         else if difficulty = Beginner
         then (random_pick (random_draw rnd) possibleMoves, g)
         else
           let depth = depth_chessAI difficulty;
               isWhite = (turn R (cur g) = White);
               (bestMoveFound, bestValFound, g2) =
                  rerunLoop_chessAI R (depth - 1) isWhite possibleMoves (hd possibleMoves)
                    (if isWhite then NegInfinity else Infinity) g
           in (Some bestMoveFound, g2))"

subsection \<open>\<open>getBestMove\<close> of \<open>lib/ai\<close>\<close>

fun depth_ai :: "Difficulty \<Rightarrow> nat" where
  "depth_ai Easy = 2"
| "depth_ai Hard = 3"
| "depth_ai Master = 4"
| "depth_ai Beginner = 1"

text \<open>
  The selection loop. \<open>game.turn()\<close> is read after \<open>game.move(move)\<close>: once for the
  \<open>isMaximizingPlayer\<close> argument, and again after \<open>minimax\<close> has returned. The constants
  \<open>isBlack\<close>, \<open>aiColor\<close> and \<open>moveValue\<close> and the empty \<open>if\<close> are never used.
\<close>

primrec selectLoop_ai ::
  "'p rules \<Rightarrow> nat \<Rightarrow> string list \<Rightarrow> string option \<Rightarrow> int \<Rightarrow> 'p game
     \<Rightarrow> string option \<times> int \<times> 'p game" where
  "selectLoop_ai R dm1 [] bestMove bestValue g = (bestMove, bestValue, g)"
| "selectLoop_ai R dm1 (m # ms) bestMove bestValue g =
     (let g1 = move R g m;
          (boardValue, g2) =
             minimax_ai R g1 dm1 (Num (-10000)) (Num 10000) (turn R (cur g1) = White)
      in if turn R (cur g2) = Black
         then (if boardValue > bestValue
               then selectLoop_ai R dm1 ms (Some m) boardValue (undo g2)
               else selectLoop_ai R dm1 ms bestMove bestValue (undo g2))
         else (if bestMove = None \<or> boardValue < bestValue
               then selectLoop_ai R dm1 ms (Some m) boardValue (undo g2)
               else selectLoop_ai R dm1 ms bestMove bestValue (undo g2)))"

text \<open>
  \<open>moves.sort(...)\<close> sorts in place, so the fallback \<open>moves[0]\<close> reads the shuffled array.
  \<open>!bestMove\<close> holds for \<open>null\<close> and for the empty string.
\<close>

definition getBestMove_ai ::
  "'p rules \<Rightarrow> random_source \<Rightarrow> 'p game \<Rightarrow> Difficulty \<Rightarrow> string option \<times> 'p game" where
  "getBestMove_ai R rnd g difficulty =
     (let ms = moves R (cur g)
      in if length ms = 0 then (None, g)
         else if difficulty = Beginner then (random_pick (random_draw rnd) ms, g)
         else
           let depth = depth_ai difficulty;
               shuffledMoves = sort_outcome rnd ms;
               (bestMove, bestValue, g') =
                  selectLoop_ai R (depth - 1) shuffledMoves None (-9999) g
           in if bestMove = None \<or> bestMove = Some []
              then (case shuffledMoves of [] \<Rightarrow> None | m0 # rest \<Rightarrow> Some m0, g')
              else (bestMove, g'))"

section \<open>Scores without the game object\<close>

text \<open>
  The score computed by \<open>minimax\<close> as a function of the position alone: \<open>game.move\<close>
  followed by \<open>game.undo\<close> becomes a call on the child position.
\<close>

primrec maxScore_chessAI ::
  "(string \<Rightarrow> jsnum \<Rightarrow> jsnum \<Rightarrow> int) \<Rightarrow> string list \<Rightarrow> int \<Rightarrow> jsnum \<Rightarrow> jsnum \<Rightarrow> int" where
  "maxScore_chessAI child [] bestEval alpha beta = bestEval"
| "maxScore_chessAI child (m # ms) bestEval alpha beta =
     (let ev = child m alpha beta;
          bestEval' = max bestEval ev;
          alpha' = max alpha (Num ev)
      in if beta \<le> alpha' then bestEval'
         else maxScore_chessAI child ms bestEval' alpha' beta)"

primrec minScore_chessAI ::
  "(string \<Rightarrow> jsnum \<Rightarrow> jsnum \<Rightarrow> int) \<Rightarrow> string list \<Rightarrow> int \<Rightarrow> jsnum \<Rightarrow> jsnum \<Rightarrow> int" where
  "minScore_chessAI child [] bestEval alpha beta = bestEval"
| "minScore_chessAI child (m # ms) bestEval alpha beta =
     (let ev = child m alpha beta;
          bestEval' = min bestEval ev;
          beta' = min beta (Num ev)
      in if beta' \<le> alpha then bestEval'
         else minScore_chessAI child ms bestEval' alpha beta')"

fun score_chessAI :: "'p rules \<Rightarrow> 'p \<Rightarrow> nat \<Rightarrow> jsnum \<Rightarrow> jsnum \<Rightarrow> bool \<Rightarrow> int" where
  "score_chessAI R p 0 alpha beta mx = - evaluateBoard_chessAI R p"
| "score_chessAI R p (Suc d) alpha beta mx =
     (if isGameOver R p then - evaluateBoard_chessAI R p
      else if mx
      then maxScore_chessAI (\<lambda>m a b. score_chessAI R (applyMove R p m) d a b (\<not> mx))
             (moves R p) (-99999) alpha beta
      else minScore_chessAI (\<lambda>m a b. score_chessAI R (applyMove R p m) d a b (\<not> mx))
             (moves R p) 99999 alpha beta)"

primrec maxScore_ai ::
  "(string \<Rightarrow> jsnum \<Rightarrow> jsnum \<Rightarrow> int) \<Rightarrow> string list \<Rightarrow> int \<Rightarrow> jsnum \<Rightarrow> jsnum \<Rightarrow> int" where
  "maxScore_ai child [] bestEval alpha beta = bestEval"
| "maxScore_ai child (m # ms) bestEval alpha beta =
     (let bestEval' = max bestEval (child m alpha beta);
          alpha' = max alpha (Num bestEval')
      in if beta \<le> alpha' then bestEval'
         else maxScore_ai child ms bestEval' alpha' beta)"

primrec minScore_ai ::
  "(string \<Rightarrow> jsnum \<Rightarrow> jsnum \<Rightarrow> int) \<Rightarrow> string list \<Rightarrow> int \<Rightarrow> jsnum \<Rightarrow> jsnum \<Rightarrow> int" where
  "minScore_ai child [] bestEval alpha beta = bestEval"
| "minScore_ai child (m # ms) bestEval alpha beta =
     (let bestEval' = min bestEval (child m alpha beta);
          beta' = min beta (Num bestEval')
      in if beta' \<le> alpha then bestEval'
         else minScore_ai child ms bestEval' alpha beta')"

fun score_ai :: "'p rules \<Rightarrow> 'p \<Rightarrow> nat \<Rightarrow> jsnum \<Rightarrow> jsnum \<Rightarrow> bool \<Rightarrow> int" where
  "score_ai R p 0 alpha beta mx = - evaluateBoard_ai R p"
| "score_ai R p (Suc d) alpha beta mx =
     (if isGameOver R p then - evaluateBoard_ai R p
      else if mx
      then maxScore_ai (\<lambda>m a b. score_ai R (applyMove R p m) d a b False)
             (moves R p) (-9999) alpha beta
      else minScore_ai (\<lambda>m a b. score_ai R (applyMove R p m) d a b True)
             (moves R p) 9999 alpha beta)"

section \<open>Minimax without pruning\<close>

text \<open>
  The reference search of the specification: the same recursion over the same tree, with
  the same leaf value and the same starting values of \<open>bestEval\<close>, but without bounds and
  without the \<open>break\<close>.
\<close>

fun unpruned_chessAI :: "'p rules \<Rightarrow> 'p \<Rightarrow> nat \<Rightarrow> bool \<Rightarrow> int" where
  "unpruned_chessAI R p 0 mx = - evaluateBoard_chessAI R p"
| "unpruned_chessAI R p (Suc d) mx =
     (if isGameOver R p then - evaluateBoard_chessAI R p
      else if mx
      then fold (\<lambda>m best. max best (unpruned_chessAI R (applyMove R p m) d (\<not> mx)))
             (moves R p) (-99999)
      else fold (\<lambda>m best. min best (unpruned_chessAI R (applyMove R p m) d (\<not> mx)))
             (moves R p) 99999)"

fun unpruned_ai :: "'p rules \<Rightarrow> 'p \<Rightarrow> nat \<Rightarrow> bool \<Rightarrow> int" where
  "unpruned_ai R p 0 mx = - evaluateBoard_ai R p"
| "unpruned_ai R p (Suc d) mx =
     (if isGameOver R p then - evaluateBoard_ai R p
      else if mx
      then fold (\<lambda>m best. max best (unpruned_ai R (applyMove R p m) d False))
             (moves R p) (-9999)
      else fold (\<lambda>m best. min best (unpruned_ai R (applyMove R p m) d True))
             (moves R p) 9999)"

section \<open>Specification-side definitions\<close>

subsection \<open>The evaluator as the specification words it\<close>

fun material :: "piece_type \<Rightarrow> int" where
  "material Pawn = 10"
| "material Knight = 30"
| "material Bishop = 30"
| "material Rook = 50"
| "material Queen = 90"
| "material King = 900"

text \<open>
  The positional bonus: for pawns and knights only, read from the table of the piece kind
  at the square index for White and at the vertically mirrored index for Black.
\<close>

definition bonus :: "piece \<Rightarrow> nat \<Rightarrow> nat \<Rightarrow> int" where
  "bonus pc i j =
     (let k = (case pcolor pc of White \<Rightarrow> 8 * i + j | Black \<Rightarrow> 8 * (7 - i) + j)
      in case ptype pc of Pawn \<Rightarrow> PST_p ! k | Knight \<Rightarrow> PST_n ! k | _ \<Rightarrow> 0)"

definition side_sign :: "piece \<Rightarrow> int" where
  "side_sign pc = (case pcolor pc of White \<Rightarrow> 1 | Black \<Rightarrow> -1)"

definition evaluate_spec :: "(nat \<Rightarrow> nat \<Rightarrow> piece option) \<Rightarrow> int" where
  "evaluate_spec b =
     (\<Sum>i<8. \<Sum>j<8. case b i j of None \<Rightarrow> 0
                     | Some pc \<Rightarrow> side_sign pc * (material (ptype pc) + bonus pc i j))"

text \<open>The signed material sum alone.\<close>

definition material_spec :: "(nat \<Rightarrow> nat \<Rightarrow> piece option) \<Rightarrow> int" where
  "material_spec b =
     (\<Sum>i<8. \<Sum>j<8. case b i j of None \<Rightarrow> 0
                     | Some pc \<Rightarrow> side_sign pc * material (ptype pc))"

subsection \<open>Colour mirroring\<close>

fun opposite :: "color \<Rightarrow> color" where
  "opposite White = Black"
| "opposite Black = White"

definition swap_side :: "piece \<Rightarrow> piece" where
  "swap_side pc = pc\<lparr>pcolor := opposite (pcolor pc)\<rparr>"

text \<open>
  Position \<open>q\<close> is the colour-mirrored counterpart of \<open>p\<close>: every piece has changed sides
  and the board is flipped vertically.
\<close>

definition color_mirrored :: "'p rules \<Rightarrow> 'p \<Rightarrow> 'p \<Rightarrow> bool" where
  "color_mirrored R p q =
     (\<forall>i<8. \<forall>j<8. board R q i j = map_option swap_side (board R p (7 - i) j))"

subsection \<open>Contracts of the rules engine and of the random sort\<close>

text \<open>
  In chess.js a position without legal moves is checkmate or stalemate, and
  \<open>isGameOver()\<close> holds for both.
\<close>

definition no_moves_is_game_over :: "'p rules \<Rightarrow> 'p \<Rightarrow> bool" where
  "no_moves_is_game_over R p = (moves R p = [] \<longrightarrow> isGameOver R p)"

text \<open>After a legal move it is the other side's turn.\<close>

definition turns_alternate :: "'p rules \<Rightarrow> 'p \<Rightarrow> bool" where
  "turns_alternate R p =
     (\<forall>m \<in> set (moves R p). turn R (applyMove R p m) = opposite (turn R p))"

text \<open>\<open>Math.random()\<close> lies in [0, 1), and sorting permutes the array.\<close>

definition random_ok :: "random_source \<Rightarrow> string list \<Rightarrow> bool" where
  "random_ok rnd ms =
     (0 \<le> random_draw rnd \<and> random_draw rnd < 1 \<and> mset (sort_outcome rnd ms) = mset ms)"

subsection \<open>Tied candidates in \<open>lib/ai\<close>\<close>

text \<open>The score \<open>boardValue\<close> that the selection loop of \<open>lib/ai\<close> gives candidate \<open>m\<close>.\<close>

definition boardValue_ai :: "'p rules \<Rightarrow> 'p \<Rightarrow> nat \<Rightarrow> string \<Rightarrow> int" where
  "boardValue_ai R p dm1 m =
     score_ai R (applyMove R p m) dm1 (Num (-10000)) (Num 10000)
       (turn R (applyMove R p m) = White)"

text \<open>No candidate of \<open>ms\<close> is strictly better for the side to move than \<open>m\<close>.\<close>

definition none_better_ai :: "'p rules \<Rightarrow> 'p \<Rightarrow> nat \<Rightarrow> string \<Rightarrow> string list \<Rightarrow> bool" where
  "none_better_ai R p dm1 m ms =
     (if turn R p = White
      then list_all (\<lambda>m'. boardValue_ai R p dm1 m' \<le> boardValue_ai R p dm1 m) ms
      else list_all (\<lambda>m'. boardValue_ai R p dm1 m \<le> boardValue_ai R p dm1 m') ms)"

subsection \<open>Soundness of a bounded search result\<close>

text \<open>
  What a score \<open>v\<close> searched within \<open>(alpha, beta)\<close> says about the unpruned score \<open>u\<close>:
  exact inside the window, a bound outside it.
\<close>

definition ab_sound :: "jsnum \<Rightarrow> jsnum \<Rightarrow> int \<Rightarrow> int \<Rightarrow> bool" where
  "ab_sound alpha beta v u =
     ((Num v \<le> alpha \<longrightarrow> u \<le> v) \<and> (beta \<le> Num v \<longrightarrow> v \<le> u)
      \<and> (alpha < Num v \<and> Num v < beta \<longrightarrow> v = u))"

section \<open>A small rules engine for concrete runs\<close>

text \<open>
  Positions are numbered. Position 5 is \<open>Q6K/8/8/8/8/8/8/r5k1\<close> with Black to move, and two
  of Black's moves are listed: the rook takes the undefended queen (position 6) or steps
  aside (position 7). Position 10 is White to move with two quiet moves leading to
  positions 11 and 12 of equal score. Position 20 holds pawns and knights, and
  position 21 is its colour-mirrored counterpart. Every other position is game-over.
\<close>

definition mk_piece :: "piece_type \<Rightarrow> color \<Rightarrow> piece option" where
  "mk_piece t c = Some \<lparr>ptype = t, pcolor = c\<rparr>"

definition board_start :: "nat \<Rightarrow> nat \<Rightarrow> piece option" where
  "board_start i j =
     (if i = 0 \<and> j = 0 then mk_piece Queen White
      else if i = 0 \<and> j = 7 then mk_piece King White
      else if i = 7 \<and> j = 0 then mk_piece Rook Black
      else if i = 7 \<and> j = 6 then mk_piece King Black
      else None)"

definition board_captured :: "nat \<Rightarrow> nat \<Rightarrow> piece option" where
  "board_captured i j =
     (if i = 0 \<and> j = 0 then mk_piece Rook Black
      else if i = 0 \<and> j = 7 then mk_piece King White
      else if i = 7 \<and> j = 6 then mk_piece King Black
      else None)"

definition board_aside :: "nat \<Rightarrow> nat \<Rightarrow> piece option" where
  "board_aside i j =
     (if i = 0 \<and> j = 0 then mk_piece Queen White
      else if i = 0 \<and> j = 7 then mk_piece King White
      else if i = 7 \<and> j = 1 then mk_piece Rook Black
      else if i = 7 \<and> j = 6 then mk_piece King Black
      else None)"

definition board_kings :: "nat \<Rightarrow> nat \<Rightarrow> nat \<Rightarrow> piece option" where
  "board_kings file i j =
     (if i = 7 \<and> j = file then mk_piece King White
      else if i = 0 \<and> j = 4 then mk_piece King Black
      else None)"

definition board_minor :: "nat \<Rightarrow> nat \<Rightarrow> piece option" where
  "board_minor i j =
     (if i = 1 \<and> j = 0 then mk_piece Pawn White
      else if i = 2 \<and> j = 2 then mk_piece Knight Black
      else if i = 7 \<and> j = 4 then mk_piece King White
      else if i = 0 \<and> j = 4 then mk_piece King Black
      else None)"

definition board_minor_mirrored :: "nat \<Rightarrow> nat \<Rightarrow> piece option" where
  "board_minor_mirrored i j = map_option swap_side (board_minor (7 - i) j)"

definition mock_rules :: "nat rules" where
  "mock_rules =
     \<lparr>moves = (\<lambda>p. if p = 5 then [''Rxa8+'', ''Rb1'']
                   else if p = 10 then [''Kd1'', ''Kf1'']
                   else []),
      applyMove = (\<lambda>p m. if p = 5 then (if m = ''Rxa8+'' then 6 else 7)
                         else if p = 10 then (if m = ''Kd1'' then 11 else 12)
                         else p + 100),
      isGameOver = (\<lambda>p. p \<noteq> 5 \<and> p \<noteq> 10),
      board = (\<lambda>p. if p = 5 then board_start
                   else if p = 6 then board_captured
                   else if p = 7 then board_aside
                   else if p = 20 then board_minor
                   else if p = 21 then board_minor_mirrored
                   else if p = 11 then board_kings 3
                   else if p = 12 then board_kings 5
                   else board_kings 4),
      turn = (\<lambda>p. if p = 5 \<or> p = 11 \<or> p = 12 then Black else White)\<rparr>"

definition new_game :: "'p \<Rightarrow> 'p game" where
  "new_game p = \<lparr>cur = p, hist = []\<rparr>"

text \<open>Two runs of the random sort: one leaves the order, the other reverses it.\<close>

definition rnd_keep :: random_source where
  "rnd_keep = \<lparr>random_draw = 0, sort_outcome = (\<lambda>ms. ms)\<rparr>"

definition rnd_reverse :: random_source where
  "rnd_reverse = \<lparr>random_draw = 1 / 2, sort_outcome = rev\<rparr>"

section \<open>Moves the rules engine rejects\<close>














section \<open>An engine on which \<open>lib/ai\<close> keeps no candidate\<close>



section \<open>The game object is restored\<close>


lemma undo_move: "undo (move R g m) = g"
  by (simp add: undo_def move_def)

lemma cur_move: "cur (move R g m) = applyMove R (cur g) m"
  by (simp add: move_def)

lemma maxLoop_chessAI_score:
  assumes "\<And>g a b. child g a b = (c (cur g) a b, g)"
  shows "maxLoop_chessAI R child ms best alpha beta g =
         (maxScore_chessAI (\<lambda>m. c (applyMove R (cur g) m)) ms best alpha beta, g)"
  by (induction ms arbitrary: best alpha) (simp_all add: assms undo_move cur_move Let_def)

lemma minLoop_chessAI_score:
  assumes "\<And>g a b. child g a b = (c (cur g) a b, g)"
  shows "minLoop_chessAI R child ms best alpha beta g =
         (minScore_chessAI (\<lambda>m. c (applyMove R (cur g) m)) ms best alpha beta, g)"
  by (induction ms arbitrary: best beta) (simp_all add: assms undo_move cur_move Let_def)

lemma minimax_chessAI_score:
  "minimax_chessAI R g d alpha beta mx = (score_chessAI R (cur g) d alpha beta mx, g)"
proof (induction d arbitrary: g alpha beta mx)
  case 0
  show ?case by simp
next
  case (Suc d)
  have mx: "maxLoop_chessAI R (\<lambda>g' a b. minimax_chessAI R g' d a b f) ms best alpha beta g =
        (maxScore_chessAI (\<lambda>m. (\<lambda>p a b. score_chessAI R p d a b f) (applyMove R (cur g) m)) ms best alpha beta, g)" for ms best f
    by (rule maxLoop_chessAI_score) (simp add: Suc.IH)
  have mn: "minLoop_chessAI R (\<lambda>g' a b. minimax_chessAI R g' d a b f) ms best alpha beta g =
        (minScore_chessAI (\<lambda>m. (\<lambda>p a b. score_chessAI R p d a b f) (applyMove R (cur g) m)) ms best alpha beta, g)" for ms best f
    by (rule minLoop_chessAI_score) (simp add: Suc.IH)
  show ?case by (simp add: mx mn Let_def)
qed

lemma maxLoop_ai_score:
  assumes "\<And>g a b. child g a b = (c (cur g) a b, g)"
  shows "maxLoop_ai R child ms best alpha beta g =
         (maxScore_ai (\<lambda>m. c (applyMove R (cur g) m)) ms best alpha beta, g)"
  by (induction ms arbitrary: best alpha) (simp_all add: assms undo_move cur_move Let_def)

lemma minLoop_ai_score:
  assumes "\<And>g a b. child g a b = (c (cur g) a b, g)"
  shows "minLoop_ai R child ms best alpha beta g =
         (minScore_ai (\<lambda>m. c (applyMove R (cur g) m)) ms best alpha beta, g)"
  by (induction ms arbitrary: best beta) (simp_all add: assms undo_move cur_move Let_def)

lemma minimax_ai_score:
  "minimax_ai R g d alpha beta mx = (score_ai R (cur g) d alpha beta mx, g)"
proof (induction d arbitrary: g alpha beta mx)
  case 0
  show ?case by simp
next
  case (Suc d)
  have mx: "maxLoop_ai R (\<lambda>g' a b. minimax_ai R g' d a b False) ms best alpha beta g =
        (maxScore_ai (\<lambda>m. (\<lambda>p a b. score_ai R p d a b False) (applyMove R (cur g) m)) ms best alpha beta, g)" for ms best
    by (rule maxLoop_ai_score) (simp add: Suc.IH)
  have mn: "minLoop_ai R (\<lambda>g' a b. minimax_ai R g' d a b True) ms best alpha beta g =
        (minScore_ai (\<lambda>m. (\<lambda>p a b. score_ai R p d a b True) (applyMove R (cur g) m)) ms best alpha beta, g)" for ms best
    by (rule minLoop_ai_score) (simp add: Suc.IH)
  show ?case by (simp add: mx mn Let_def)
qed

section \<open>Pruning does not change the score\<close>

lemma Num_less [simp]: "(Num a < Num b) = (a < b)"
  by (auto simp: less_jsnum_def)

lemma Num_max [simp]: "max (Num a) (Num b) = Num (max a b)"
  by (simp add: max_def)

lemma Num_min [simp]: "min (Num a) (Num b) = Num (min a b)"
  by (simp add: min_def)

lemma fold_max_ge: "(b::int) \<le> fold (\<lambda>m b. max b (h m)) ms b"
proof (induction ms arbitrary: b)
  case Nil show ?case by simp
next
  case (Cons m ms)
  have "b \<le> max b (h m)" by simp
  also have "\<dots> \<le> fold (\<lambda>m b. max b (h m)) ms (max b (h m))" by (rule Cons.IH)
  finally show ?case by simp
qed

lemma fold_min_le: "fold (\<lambda>m b. min b (h m)) ms b \<le> (b::int)"
proof (induction ms arbitrary: b)
  case Nil show ?case by simp
next
  case (Cons m ms)
  have "fold (\<lambda>m b. min b (h m)) ms (min b (h m)) \<le> min b (h m)" by (rule Cons.IH)
  also have "\<dots> \<le> b" by simp
  finally show ?case by simp
qed

lemma maxScore_chessAI_ge: "best \<le> maxScore_chessAI child ms best alpha beta"
proof (induction ms arbitrary: best alpha)
  case Nil show ?case by simp
next
  case (Cons m ms)
  have "best \<le> max best (child m alpha beta)" by simp
  also have "\<dots> \<le> maxScore_chessAI child ms (max best (child m alpha beta)) a beta" for a
    by (rule Cons.IH)
  finally show ?case by (simp add: Let_def)
qed

lemma maxScore_chessAI_sound:
  assumes "alpha < beta"
    and "\<And>m a b. m \<in> set ms \<Longrightarrow> a < b \<Longrightarrow> ab_sound a b (child m a b) (h m)"
    and "ubest \<le> best"
    and "Num best \<le> alpha \<or> best = ubest"
  shows "ab_sound alpha beta (maxScore_chessAI child ms best alpha beta)
           (fold (\<lambda>m b. max b (h m)) ms ubest)"
  using assms
proof (induction ms arbitrary: best ubest alpha)
  case Nil
  then show ?case by (auto simp: ab_sound_def)
next
  case (Cons m ms)
  define ev where "ev = child m alpha beta"
  define best' where "best' = max best ev"
  define alpha' where "alpha' = max alpha (Num ev)"
  define ubest' where "ubest' = max ubest (h m)"
  define u where "u = fold (\<lambda>m b. max b (h m)) ms ubest'"
  have ev: "ab_sound alpha beta ev (h m)"
    unfolding ev_def using Cons.prems(1,2) by simp
  have u_ge: "ubest' \<le> u" unfolding u_def by (rule fold_max_ge)
  have a_le: "alpha \<le> alpha'" by (simp add: alpha'_def)
  show ?case
  proof (cases "beta \<le> alpha'")
    case True
    then have res: "maxScore_chessAI child (m # ms) best alpha beta = best'"
      by (simp add: Let_def ev_def best'_def alpha'_def)
    from True Cons.prems(1) have b_ev: "beta \<le> Num ev"
      by (auto simp: alpha'_def max_def split: if_splits)
    with ev have ev_h: "ev \<le> h m" by (simp add: ab_sound_def)
    have "Num ev \<le> Num best'" by (simp add: best'_def)
    with b_ev have b_best: "beta \<le> Num best'" by order
    have "best < ev" if "Num best \<le> alpha"
    proof -
      from that Cons.prems(1) b_ev have "Num best < Num ev" by order
      then show ?thesis by simp
    qed
    with Cons.prems(4) have "best' \<le> max ubest ev"
      by (auto simp: best'_def)
    also have "\<dots> \<le> ubest'" using ev_h by (auto simp: ubest'_def)
    finally have "best' \<le> u" using u_ge by simp
    moreover have "\<not> Num best' \<le> alpha" "\<not> Num best' < beta"
      using b_best Cons.prems(1) by order+
    ultimately have "ab_sound alpha beta best' u"
      by (simp add: ab_sound_def)
    then show ?thesis unfolding res u_def ubest'_def by simp
  next
    case False
    then have lt: "alpha' < beta" by simp
    define v where "v = maxScore_chessAI child ms best' alpha' beta"
    have res: "maxScore_chessAI child (m # ms) best alpha beta = v"
      using False by (simp add: Let_def ev_def best'_def alpha'_def v_def)
    have ev_a: "Num ev \<le> alpha'" by (simp add: alpha'_def)
    with lt have ev_b: "Num ev < beta" by order
    with ev have hm: "h m \<le> ev" "alpha < Num ev \<Longrightarrow> ev = h m"
      by (auto simp: ab_sound_def)
    have p3: "ubest' \<le> best'"
      using Cons.prems(3) hm(1) by (auto simp: ubest'_def best'_def)
    have p4: "Num best' \<le> alpha' \<or> best' = ubest'"
    proof (cases "best \<le> ev")
      case True
      then have "best' = ev" by (simp add: best'_def)
      with ev_a show ?thesis by simp
    next
      case False
      then have b: "best' = best" by (simp add: best'_def)
      from Cons.prems(4) show ?thesis
      proof
        assume "Num best \<le> alpha"
        with a_le have "Num best \<le> alpha'" by order
        then show ?thesis by (simp add: b)
      next
        assume "best = ubest"
        with False hm(1) show ?thesis by (simp add: b ubest'_def)
      qed
    qed
    have IH: "ab_sound alpha' beta v u"
      unfolding u_def v_def using lt Cons.prems(2) p3 p4 by (intro Cons.IH) auto
    have ge: "best' \<le> v"
      unfolding v_def by (rule maxScore_chessAI_ge)
    have c1: "u \<le> v" if "Num v \<le> alpha"
    proof -
      from that a_le have "Num v \<le> alpha'" by order
      with IH show ?thesis by (simp add: ab_sound_def)
    qed
    have c2: "v \<le> u" if "beta \<le> Num v"
      using IH that by (simp add: ab_sound_def)
    have c3: "v = u" if "alpha < Num v" "Num v < beta"
    proof (cases "alpha' < Num v")
      case True
      with IH that show ?thesis by (simp add: ab_sound_def)
    next
      case False
      then have le: "Num v \<le> alpha'" by simp
      with IH have "u \<le> v" by (simp add: ab_sound_def)
      have "alpha' = Num ev"
        using le that(1) by (auto simp: alpha'_def max_def split: if_splits)
      with le have "v \<le> ev" by simp
      have "Num v \<le> Num ev" using \<open>v \<le> ev\<close> by simp
      with that(1) have "alpha < Num ev" by order
      then have "ev = h m" by (rule hm(2))
      with \<open>v \<le> ev\<close> have "v \<le> ubest'" by (simp add: ubest'_def)
      with u_ge \<open>u \<le> v\<close> show ?thesis by simp
    qed
    have "ab_sound alpha beta v u"
      using c1 c2 c3 by (simp add: ab_sound_def)
    then show ?thesis unfolding res u_def ubest'_def by simp
  qed
qed


lemma minScore_chessAI_le: "minScore_chessAI child ms best alpha beta \<le> best"
proof (induction ms arbitrary: best beta)
  case Nil show ?case by simp
next
  case (Cons m ms)
  have "minScore_chessAI child ms (min best (child m alpha beta)) alpha b
          \<le> min best (child m alpha beta)" for b
    by (rule Cons.IH)
  also have "\<dots> \<le> best" by simp
  finally show ?case by (simp add: Let_def)
qed

lemma minScore_chessAI_sound:
  assumes "alpha < beta"
    and "\<And>m a b. m \<in> set ms \<Longrightarrow> a < b \<Longrightarrow> ab_sound a b (child m a b) (h m)"
    and "best \<le> ubest"
    and "beta \<le> Num best \<or> best = ubest"
  shows "ab_sound alpha beta (minScore_chessAI child ms best alpha beta)
           (fold (\<lambda>m b. min b (h m)) ms ubest)"
  using assms
proof (induction ms arbitrary: best ubest beta)
  case Nil
  then show ?case by (auto simp: ab_sound_def)
next
  case (Cons m ms)
  define ev where "ev = child m alpha beta"
  define best' where "best' = min best ev"
  define beta' where "beta' = min beta (Num ev)"
  define ubest' where "ubest' = min ubest (h m)"
  define u where "u = fold (\<lambda>m b. min b (h m)) ms ubest'"
  have ev: "ab_sound alpha beta ev (h m)"
    unfolding ev_def using Cons.prems(1,2) by simp
  have u_le: "u \<le> ubest'" unfolding u_def by (rule fold_min_le)
  have b_le: "beta' \<le> beta" by (simp add: beta'_def)
  show ?case
  proof (cases "beta' \<le> alpha")
    case True
    then have res: "minScore_chessAI child (m # ms) best alpha beta = best'"
      by (simp add: Let_def ev_def best'_def beta'_def)
    from True Cons.prems(1) have ev_a: "Num ev \<le> alpha"
      by (auto simp: beta'_def min_def split: if_splits)
    with ev have ev_h: "h m \<le> ev" by (simp add: ab_sound_def)
    have "Num best' \<le> Num ev" by (simp add: best'_def)
    with ev_a have best_a: "Num best' \<le> alpha" by order
    have "ev < best" if "beta \<le> Num best"
    proof -
      from that Cons.prems(1) ev_a have "Num ev < Num best" by order
      then show ?thesis by simp
    qed
    with Cons.prems(4) have "min ubest ev \<le> best'"
      by (auto simp: best'_def)
    moreover have "ubest' \<le> min ubest ev" using ev_h by (auto simp: ubest'_def)
    ultimately have "u \<le> best'" using u_le by linarith
    moreover have "\<not> beta \<le> Num best'" "\<not> alpha < Num best'"
      using best_a Cons.prems(1) by order+
    ultimately have "ab_sound alpha beta best' u"
      by (simp add: ab_sound_def)
    then show ?thesis unfolding res u_def ubest'_def by simp
  next
    case False
    then have lt: "alpha < beta'" by simp
    define v where "v = minScore_chessAI child ms best' alpha beta'"
    have res: "minScore_chessAI child (m # ms) best alpha beta = v"
      using False by (simp add: Let_def ev_def best'_def beta'_def v_def)
    have ev_b: "beta' \<le> Num ev" by (simp add: beta'_def)
    with lt have ev_a: "alpha < Num ev" by order
    with ev have hm: "ev \<le> h m" "Num ev < beta \<Longrightarrow> ev = h m"
      by (auto simp: ab_sound_def)
    have p3: "best' \<le> ubest'"
      using Cons.prems(3) hm(1) by (auto simp: ubest'_def best'_def)
    have p4: "beta' \<le> Num best' \<or> best' = ubest'"
    proof (cases "ev \<le> best")
      case True
      then have "best' = ev" by (simp add: best'_def)
      with ev_b show ?thesis by simp
    next
      case False
      then have b: "best' = best" by (simp add: best'_def)
      from Cons.prems(4) show ?thesis
      proof
        assume "beta \<le> Num best"
        with b_le have "beta' \<le> Num best" by order
        then show ?thesis by (simp add: b)
      next
        assume "best = ubest"
        with False hm(1) show ?thesis by (simp add: b ubest'_def)
      qed
    qed
    have IH: "ab_sound alpha beta' v u"
      unfolding u_def v_def using lt Cons.prems(2) p3 p4 by (intro Cons.IH) auto
    have le: "v \<le> best'"
      unfolding v_def by (rule minScore_chessAI_le)
    have c1: "u \<le> v" if "Num v \<le> alpha"
      using IH that by (simp add: ab_sound_def)
    have c2: "v \<le> u" if "beta \<le> Num v"
    proof -
      from that b_le have "beta' \<le> Num v" by order
      with IH show ?thesis by (simp add: ab_sound_def)
    qed
    have c3: "v = u" if "alpha < Num v" "Num v < beta"
    proof (cases "Num v < beta'")
      case True
      with IH that show ?thesis by (simp add: ab_sound_def)
    next
      case False
      then have ge: "beta' \<le> Num v" by simp
      with IH have "v \<le> u" by (simp add: ab_sound_def)
      have "beta' = Num ev"
        using ge that(2) by (auto simp: beta'_def min_def split: if_splits)
      with ge have "ev \<le> v" by simp
      have "Num ev \<le> Num v" using \<open>ev \<le> v\<close> by simp
      with that(2) have "Num ev < beta" by order
      then have "ev = h m" by (rule hm(2))
      with \<open>ev \<le> v\<close> have "ubest' \<le> v" by (simp add: ubest'_def)
      with u_le \<open>v \<le> u\<close> show ?thesis by simp
    qed
    have "ab_sound alpha beta v u"
      using c1 c2 c3 by (simp add: ab_sound_def)
    then show ?thesis unfolding res u_def ubest'_def by simp
  qed
qed

lemma ab_sound_full: "ab_sound NegInfinity Infinity v u \<Longrightarrow> v = u"
  by (simp add: ab_sound_def less_jsnum_def)

lemma score_chessAI_sound:
  "alpha < beta \<Longrightarrow>
   ab_sound alpha beta (score_chessAI R p d alpha beta mx) (unpruned_chessAI R p d mx)"
proof (induction d arbitrary: p alpha beta mx)
  case 0
  show ?case by (simp add: ab_sound_def)
next
  case (Suc d)
  show ?case
  proof (cases "isGameOver R p")
    case True
    then show ?thesis by (simp add: ab_sound_def)
  next
    case False
    show ?thesis
    proof (cases mx)
      case True
      have "ab_sound alpha beta
              (maxScore_chessAI (\<lambda>m a b. score_chessAI R (applyMove R p m) d a b False)
                 (moves R p) (-99999) alpha beta)
              (fold (\<lambda>m b. max b (unpruned_chessAI R (applyMove R p m) d False))
                 (moves R p) (-99999))"
        by (rule maxScore_chessAI_sound) (simp_all add: Suc.prems Suc.IH)
      with True False show ?thesis by simp
    next
      case F: False
      have "ab_sound alpha beta
              (minScore_chessAI (\<lambda>m a b. score_chessAI R (applyMove R p m) d a b True)
                 (moves R p) 99999 alpha beta)
              (fold (\<lambda>m b. min b (unpruned_chessAI R (applyMove R p m) d True))
                 (moves R p) 99999)"
        by (rule minScore_chessAI_sound) (simp_all add: Suc.prems Suc.IH)
      with F False show ?thesis by simp
    qed
  qed
qed

lemma maxScore_ai_ge: "best \<le> maxScore_ai child ms best alpha beta"
proof (induction ms arbitrary: best alpha)
  case Nil show ?case by simp
next
  case (Cons m ms)
  have "best \<le> max best (child m alpha beta)" by simp
  also have "\<dots> \<le> maxScore_ai child ms (max best (child m alpha beta)) a beta" for a
    by (rule Cons.IH)
  finally show ?case by (simp add: Let_def)
qed

lemma minScore_ai_le: "minScore_ai child ms best alpha beta \<le> best"
proof (induction ms arbitrary: best beta)
  case Nil show ?case by simp
next
  case (Cons m ms)
  have "minScore_ai child ms (min best (child m alpha beta)) alpha b
          \<le> min best (child m alpha beta)" for b
    by (rule Cons.IH)
  also have "\<dots> \<le> best" by simp
  finally show ?case by (simp add: Let_def)
qed

lemma maxScore_ai_sound:
  assumes "alpha < beta"
    and "\<And>m a b. m \<in> set ms \<Longrightarrow> a < b \<Longrightarrow> ab_sound a b (child m a b) (h m)"
    and "ubest \<le> best"
    and "Num best \<le> alpha \<or> best = ubest"
  shows "ab_sound alpha beta (maxScore_ai child ms best alpha beta)
           (fold (\<lambda>m b. max b (h m)) ms ubest)"
  using assms
proof (induction ms arbitrary: best ubest alpha)
  case Nil
  then show ?case by (auto simp: ab_sound_def)
next
  case (Cons m ms)
  define ev where "ev = child m alpha beta"
  define best' where "best' = max best ev"
  define alpha' where "alpha' = max alpha (Num best')"
  define ubest' where "ubest' = max ubest (h m)"
  define u where "u = fold (\<lambda>m b. max b (h m)) ms ubest'"
  have ev: "ab_sound alpha beta ev (h m)"
    unfolding ev_def using Cons.prems(1,2) by simp
  have u_ge: "ubest' \<le> u" unfolding u_def by (rule fold_max_ge)
  have a_le: "alpha \<le> alpha'" by (simp add: alpha'_def)
  have best_a: "Num best' \<le> alpha'" by (simp add: alpha'_def)
  have ev_best: "Num ev \<le> Num best'" by (simp add: best'_def)
  show ?case
  proof (cases "beta \<le> alpha'")
    case True
    then have res: "maxScore_ai child (m # ms) best alpha beta = best'"
      by (simp add: Let_def ev_def best'_def alpha'_def)
    from True Cons.prems(1) have b_best: "beta \<le> Num best'"
      by (auto simp: alpha'_def max_def split: if_splits)
    have "best' \<le> u"
    proof (cases "best < ev")
      case True
      then have "best' = ev" by (simp add: best'_def)
      with b_best ev have "ev \<le> h m" by (simp add: ab_sound_def)
      with \<open>best' = ev\<close> u_ge show ?thesis by (simp add: ubest'_def)
    next
      case False
      then have b: "best' = best" by (simp add: best'_def)
      have "\<not> Num best \<le> alpha" using b_best Cons.prems(1) unfolding b by order
      with Cons.prems(4) have "best = ubest" by simp
      with b u_ge show ?thesis by (simp add: ubest'_def)
    qed
    moreover have "\<not> Num best' \<le> alpha" "\<not> Num best' < beta"
      using b_best Cons.prems(1) by order+
    ultimately have "ab_sound alpha beta best' u"
      by (simp add: ab_sound_def)
    then show ?thesis unfolding res u_def ubest'_def by simp
  next
    case False
    then have lt: "alpha' < beta" by simp
    define v where "v = maxScore_ai child ms best' alpha' beta"
    have res: "maxScore_ai child (m # ms) best alpha beta = v"
      using False by (simp add: Let_def ev_def best'_def alpha'_def v_def)
    from lt best_a ev_best have ev_b: "Num ev < beta" by order
    with ev have hm: "h m \<le> ev" "alpha < Num ev \<Longrightarrow> ev = h m"
      by (auto simp: ab_sound_def)
    have p3: "ubest' \<le> best'"
      using Cons.prems(3) hm(1) by (auto simp: ubest'_def best'_def)
    have IH: "ab_sound alpha' beta v u"
      unfolding u_def v_def using lt Cons.prems(2) p3 best_a by (intro Cons.IH) auto
    have ge: "best' \<le> v"
      unfolding v_def by (rule maxScore_ai_ge)
    have c1: "u \<le> v" if "Num v \<le> alpha"
    proof -
      from that a_le have "Num v \<le> alpha'" by order
      with IH show ?thesis by (simp add: ab_sound_def)
    qed
    have c2: "v \<le> u" if "beta \<le> Num v"
      using IH that by (simp add: ab_sound_def)
    have c3: "v = u" if "alpha < Num v" "Num v < beta"
    proof (cases "alpha' < Num v")
      case True
      with IH that show ?thesis by (simp add: ab_sound_def)
    next
      case False
      then have le: "Num v \<le> alpha'" by simp
      with IH have uv: "u \<le> v" by (simp add: ab_sound_def)
      have "alpha' = Num best'"
        using le that(1) by (auto simp: alpha'_def max_def split: if_splits)
      with le have "v \<le> best'" by simp
      with ge have vb: "v = best'" by simp
      have "v \<le> ubest'"
      proof (cases "best \<le> ev")
        case True
        then have "v = ev" by (simp add: vb best'_def)
        with that(1) have "ev = h m" by (intro hm(2)) simp
        with \<open>v = ev\<close> show ?thesis by (simp add: ubest'_def)
      next
        case False
        then have "v = best" by (simp add: vb best'_def)
        with that(1) have "\<not> Num best \<le> alpha" by simp
        with Cons.prems(4) have "best = ubest" by simp
        with \<open>v = best\<close> show ?thesis by (simp add: ubest'_def)
      qed
      with u_ge uv show ?thesis by simp
    qed
    have "ab_sound alpha beta v u"
      using c1 c2 c3 by (simp add: ab_sound_def)
    then show ?thesis unfolding res u_def ubest'_def by simp
  qed
qed

lemma minScore_ai_sound:
  assumes "alpha < beta"
    and "\<And>m a b. m \<in> set ms \<Longrightarrow> a < b \<Longrightarrow> ab_sound a b (child m a b) (h m)"
    and "best \<le> ubest"
    and "beta \<le> Num best \<or> best = ubest"
  shows "ab_sound alpha beta (minScore_ai child ms best alpha beta)
           (fold (\<lambda>m b. min b (h m)) ms ubest)"
  using assms
proof (induction ms arbitrary: best ubest beta)
  case Nil
  then show ?case by (auto simp: ab_sound_def)
next
  case (Cons m ms)
  define ev where "ev = child m alpha beta"
  define best' where "best' = min best ev"
  define beta' where "beta' = min beta (Num best')"
  define ubest' where "ubest' = min ubest (h m)"
  define u where "u = fold (\<lambda>m b. min b (h m)) ms ubest'"
  have ev: "ab_sound alpha beta ev (h m)"
    unfolding ev_def using Cons.prems(1,2) by simp
  have u_le: "u \<le> ubest'" unfolding u_def by (rule fold_min_le)
  have b_le: "beta' \<le> beta" by (simp add: beta'_def)
  have best_b: "beta' \<le> Num best'" by (simp add: beta'_def)
  have best_ev: "Num best' \<le> Num ev" by (simp add: best'_def)
  show ?case
  proof (cases "beta' \<le> alpha")
    case True
    then have res: "minScore_ai child (m # ms) best alpha beta = best'"
      by (simp add: Let_def ev_def best'_def beta'_def)
    from True Cons.prems(1) have best_a: "Num best' \<le> alpha"
      by (auto simp: beta'_def min_def split: if_splits)
    have "u \<le> best'"
    proof (cases "ev < best")
      case True
      then have "best' = ev" by (simp add: best'_def)
      with best_a ev have "h m \<le> ev" by (simp add: ab_sound_def)
      with \<open>best' = ev\<close> u_le show ?thesis by (simp add: ubest'_def)
    next
      case False
      then have b: "best' = best" by (simp add: best'_def)
      have "\<not> beta \<le> Num best" using best_a Cons.prems(1) unfolding b by order
      with Cons.prems(4) have "best = ubest" by simp
      with b u_le show ?thesis by (simp add: ubest'_def)
    qed
    moreover have "\<not> beta \<le> Num best'" "\<not> alpha < Num best'"
      using best_a Cons.prems(1) by order+
    ultimately have "ab_sound alpha beta best' u"
      by (simp add: ab_sound_def)
    then show ?thesis unfolding res u_def ubest'_def by simp
  next
    case False
    then have lt: "alpha < beta'" by simp
    define v where "v = minScore_ai child ms best' alpha beta'"
    have res: "minScore_ai child (m # ms) best alpha beta = v"
      using False by (simp add: Let_def ev_def best'_def beta'_def v_def)
    from lt best_b best_ev have ev_a: "alpha < Num ev" by order
    with ev have hm: "ev \<le> h m" "Num ev < beta \<Longrightarrow> ev = h m"
      by (auto simp: ab_sound_def)
    have p3: "best' \<le> ubest'"
      using Cons.prems(3) hm(1) by (auto simp: ubest'_def best'_def)
    have IH: "ab_sound alpha beta' v u"
      unfolding u_def v_def using lt Cons.prems(2) p3 best_b by (intro Cons.IH) auto
    have le: "v \<le> best'"
      unfolding v_def by (rule minScore_ai_le)
    have c1: "u \<le> v" if "Num v \<le> alpha"
      using IH that by (simp add: ab_sound_def)
    have c2: "v \<le> u" if "beta \<le> Num v"
    proof -
      from that b_le have "beta' \<le> Num v" by order
      with IH show ?thesis by (simp add: ab_sound_def)
    qed
    have c3: "v = u" if "alpha < Num v" "Num v < beta"
    proof (cases "Num v < beta'")
      case True
      with IH that show ?thesis by (simp add: ab_sound_def)
    next
      case False
      then have ge: "beta' \<le> Num v" by simp
      with IH have vu: "v \<le> u" by (simp add: ab_sound_def)
      have "beta' = Num best'"
        using ge that(2) by (auto simp: beta'_def min_def split: if_splits)
      with ge have "best' \<le> v" by simp
      with le have vb: "v = best'" by simp
      have "ubest' \<le> v"
      proof (cases "ev \<le> best")
        case True
        then have "v = ev" by (simp add: vb best'_def)
        with that(2) have "ev = h m" by (intro hm(2)) simp
        with \<open>v = ev\<close> show ?thesis by (simp add: ubest'_def)
      next
        case False
        then have "v = best" by (simp add: vb best'_def)
        with that(2) have "\<not> beta \<le> Num best" by simp
        with Cons.prems(4) have "best = ubest" by simp
        with \<open>v = best\<close> show ?thesis by (simp add: ubest'_def)
      qed
      with u_le vu show ?thesis by simp
    qed
    have "ab_sound alpha beta v u"
      using c1 c2 c3 by (simp add: ab_sound_def)
    then show ?thesis unfolding res u_def ubest'_def by simp
  qed
qed

lemma score_ai_sound:
  "alpha < beta \<Longrightarrow>
   ab_sound alpha beta (score_ai R p d alpha beta mx) (unpruned_ai R p d mx)"
proof (induction d arbitrary: p alpha beta mx)
  case 0
  show ?case by (simp add: ab_sound_def)
next
  case (Suc d)
  show ?case
  proof (cases "isGameOver R p")
    case True
    then show ?thesis by (simp add: ab_sound_def)
  next
    case False
    show ?thesis
    proof (cases mx)
      case True
      have "ab_sound alpha beta
              (maxScore_ai (\<lambda>m a b. score_ai R (applyMove R p m) d a b False)
                 (moves R p) (-9999) alpha beta)
              (fold (\<lambda>m b. max b (unpruned_ai R (applyMove R p m) d False))
                 (moves R p) (-9999))"
        by (rule maxScore_ai_sound) (simp_all add: Suc.prems Suc.IH)
      with True False show ?thesis by simp
    next
      case F: False
      have "ab_sound alpha beta
              (minScore_ai (\<lambda>m a b. score_ai R (applyMove R p m) d a b True)
                 (moves R p) 9999 alpha beta)
              (fold (\<lambda>m b. min b (unpruned_ai R (applyMove R p m) d True))
                 (moves R p) 9999)"
        by (rule minScore_ai_sound) (simp_all add: Suc.prems Suc.IH)
      with F False show ?thesis by simp
    qed
  qed
qed

text \<open>
  C3. For every position, depth and maximizing flag, \<open>minimax\<close> called with the bounds
  \<open>-Infinity\<close> and \<open>Infinity\<close> returns the score of the search without pruning over the
  same tree, in both versions of the engine.
\<close>

theorem minimax_full_window_is_unpruned:
  "fst (minimax_chessAI R g d NegInfinity Infinity mx) = unpruned_chessAI R (cur g) d mx
   \<and> fst (minimax_ai R g d NegInfinity Infinity mx) = unpruned_ai R (cur g) d mx"
proof -
  have w: "NegInfinity < Infinity" by (simp add: less_jsnum_def)
  have "score_chessAI R (cur g) d NegInfinity Infinity mx = unpruned_chessAI R (cur g) d mx"
    by (rule ab_sound_full) (rule score_chessAI_sound [OF w])
  moreover
  have "score_ai R (cur g) d NegInfinity Infinity mx = unpruned_ai R (cur g) d mx"
    by (rule ab_sound_full) (rule score_ai_sound [OF w])
  ultimately show ?thesis
    by (simp add: minimax_chessAI_score minimax_ai_score)
qed

section \<open>The selection loops\<close>

lemma firstLoop_chessAI_frame:
  "snd (snd (firstLoop_chessAI R dm1 isWhite ms bestMove bestValue g)) = g"
proof (induction ms arbitrary: bestMove bestValue)
  case Nil
  show ?case by simp
next
  case (Cons m ms)
  then show ?case
    by (cases isWhite) (simp_all add: minimax_chessAI_score undo_move Let_def)
qed

lemma rerunLoop_chessAI_frame:
  "snd (snd (rerunLoop_chessAI R dm1 isWhite ms bestMoveFound bestValFound g)) = g"
proof (induction ms arbitrary: bestMoveFound bestValFound)
  case Nil
  show ?case by simp
next
  case (Cons m ms)
  then show ?case
    by (cases isWhite) (simp_all add: minimax_chessAI_score undo_move Let_def)
qed

lemma selectLoop_ai_frame:
  "snd (snd (selectLoop_ai R dm1 ms bestMove bestValue g)) = g"
  by (induction ms arbitrary: bestMove bestValue)
     (simp_all add: minimax_ai_score undo_move Let_def)

lemma firstLoop_chessAI_result:
  "\<exists>bm bv. firstLoop_chessAI R dm1 isWhite ms bestMove bestValue g = (bm, bv, g)"
  by (metis firstLoop_chessAI_frame prod.collapse)

lemma rerunLoop_chessAI_result:
  "\<exists>bm bv. rerunLoop_chessAI R dm1 isWhite ms bestMoveFound bestValFound g = (bm, bv, g)"
  by (metis rerunLoop_chessAI_frame prod.collapse)

lemma selectLoop_ai_result:
  "\<exists>bm bv. selectLoop_ai R dm1 ms bestMove bestValue g = (bm, bv, g)"
  by (metis selectLoop_ai_frame prod.collapse)

text \<open>
  C9. In \<open>lib/chessAI\<close> the move returned by \<open>getBestMove\<close> is decided by the loop that
  is run again: for every position, random source and difficulty, the function with the
  first scoring loop deleted returns the same move and leaves the same game object.
\<close>

theorem first_loop_is_dead_code:
  "getBestMove_chessAI R rnd g difficulty = getBestMove_chessAI_rerun_only R rnd g difficulty"
proof -
  define dm1 where "dm1 = depth_chessAI difficulty - 1"
  obtain bm bv where
    "firstLoop_chessAI R dm1 (turn R (cur g) = White) (moves R (cur g)) None (-99999) g
       = (bm, bv, g)"
    using firstLoop_chessAI_result by blast
  then show ?thesis
    unfolding getBestMove_chessAI_def getBestMove_chessAI_rerun_only_def Let_def dm1_def
    by simp
qed

text \<open>
  C10. For every position and difficulty, both versions of \<open>getBestMove\<close> leave the
  game object as they received it: the current position and the history are unchanged,
  so every move made in the loops and in \<open>minimax\<close> has been undone.
\<close>

theorem getBestMove_restores_game:
  "snd (getBestMove_chessAI R rnd g difficulty) = g
   \<and> snd (getBestMove_ai R rnd g difficulty) = g"
proof
  define dm1 where "dm1 = depth_chessAI difficulty - 1"
  obtain bm bv where
    fl: "firstLoop_chessAI R dm1 (turn R (cur g) = White) (moves R (cur g)) None (-99999) g
       = (bm, bv, g)"
    using firstLoop_chessAI_result by blast
  obtain bmf bvf where
    rl: "rerunLoop_chessAI R dm1 (turn R (cur g) = White) (moves R (cur g))
           (hd (moves R (cur g)))
           (if turn R (cur g) = White then NegInfinity else Infinity) g = (bmf, bvf, g)"
    using rerunLoop_chessAI_result by blast
  show "snd (getBestMove_chessAI R rnd g difficulty) = g"
    using fl rl unfolding getBestMove_chessAI_def Let_def dm1_def by simp
next
  define dm1 where "dm1 = depth_ai difficulty - 1"
  obtain bm bv where
    sl: "selectLoop_ai R dm1 (sort_outcome rnd (moves R (cur g))) None (-9999) g
           = (bm, bv, g)"
    using selectLoop_ai_result by blast
  show "snd (getBestMove_ai R rnd g difficulty) = g"
    using sl unfolding getBestMove_ai_def Let_def dm1_def by simp
qed

section \<open>Leaves of the search\<close>

text \<open>What both versions return at depth 0 and at a game-over position.\<close>

lemma minimax_leaf_value:
  assumes "d = 0 \<or> isGameOver R (cur g)"
  shows "fst (minimax_chessAI R g d alpha beta mx) = - evaluateBoard_chessAI R (cur g)"
    and "fst (minimax_ai R g d alpha beta mx) = - evaluateBoard_ai R (cur g)"
  using assms by (cases d; simp)+

text \<open>
  C1. At depth 0, and at a game-over position at any depth, \<open>minimax\<close> returns the
  negated evaluation, not the evaluation: on the board with a white king against a black
  king and rook the evaluator gives -50 and both versions of \<open>minimax\<close> return 50.
\<close>

theorem minimax_leaf_is_negated:
  "evaluateBoard_chessAI mock_rules 6 = -50
   \<and> fst (minimax_chessAI mock_rules (new_game 6) 0 NegInfinity Infinity True) = 50
   \<and> isGameOver mock_rules 6
   \<and> fst (minimax_chessAI mock_rules (new_game 6) 3 NegInfinity Infinity True) = 50
   \<and> evaluateBoard_ai mock_rules 6 = -50
   \<and> fst (minimax_ai mock_rules (new_game 6) 0 NegInfinity Infinity True) = 50
   \<and> fst (minimax_ai mock_rules (new_game 6) 3 NegInfinity Infinity True) = 50"
  by code_simp

lemma mock_moves_5: "moves mock_rules 5 = [''Rxa8+'', ''Rb1'']"
  by (simp add: mock_rules_def)

lemma mock_turn_5: "turn mock_rules 5 = Black"
  by (simp add: mock_rules_def)

lemma mock_apply_5:
  "applyMove mock_rules 5 ''Rxa8+'' = 6" "applyMove mock_rules 5 ''Rb1'' = 7"
  by (simp_all add: mock_rules_def)

lemma mock_eval_chessAI:
  "evaluateBoard_chessAI mock_rules 6 = -50" "evaluateBoard_chessAI mock_rules 7 = 40"
  by code_simp+

text \<open>
  C2. Black to move can take an undefended queen with \<open>Rxa8+\<close>, after which the evaluator
  gives -50, or play \<open>Rb1\<close>, after which it gives 40. At the Easy tier (depth 1)
  \<open>getBestMove\<close> of \<open>lib/chessAI\<close> returns \<open>Rb1\<close>: the negated leaf score makes the
  selection prefer the worse move.
\<close>

theorem black_declines_free_queen:
  "turn mock_rules 5 = Black
   \<and> moves mock_rules 5 = [''Rxa8+'', ''Rb1'']
   \<and> evaluateBoard_chessAI mock_rules (applyMove mock_rules 5 ''Rxa8+'') = -50
   \<and> evaluateBoard_chessAI mock_rules (applyMove mock_rules 5 ''Rb1'') = 40
   \<and> fst (getBestMove_chessAI mock_rules rnd_keep (new_game 5) Easy) = Some ''Rb1''"
  by (simp add: getBestMove_chessAI_def new_game_def minimax_chessAI_score undo_move cur_move
      mock_moves_5 mock_turn_5 mock_apply_5 mock_eval_chessAI Let_def less_jsnum_def)

lemma minimax_chessAI_game_over:
  "isGameOver R (cur g) \<Longrightarrow>
   minimax_chessAI R g d alpha beta mx = minimax_chessAI R g 0 alpha beta mx"
  by (cases d) simp_all

lemma minimax_ai_game_over:
  "isGameOver R (cur g) \<Longrightarrow> minimax_ai R g d alpha beta mx = minimax_ai R g 0 alpha beta mx"
  by (cases d) simp_all

text \<open>
  C6. At a position without legal moves, which the rules engine reports as game-over,
  \<open>minimax\<close> at every depth returns the negated evaluation of that position and leaves
  the game object as it was: the value of the depth-0 case, and no sentinel, although the
  code has no test of its own for an empty move list. This holds in both versions.
\<close>

theorem no_moves_is_leaf:
  assumes "no_moves_is_game_over R (cur g)" and "moves R (cur g) = []"
  shows "minimax_chessAI R g d alpha beta mx = (- evaluateBoard_chessAI R (cur g), g)
         \<and> minimax_ai R g d alpha beta mx = (- evaluateBoard_ai R (cur g), g)
         \<and> minimax_chessAI R g d alpha beta mx = minimax_chessAI R g 0 alpha beta mx
         \<and> minimax_ai R g d alpha beta mx = minimax_ai R g 0 alpha beta mx"
proof -
  from assms have "isGameOver R (cur g)"
    by (simp add: no_moves_is_game_over_def)
  then show ?thesis
    by (simp add: minimax_chessAI_game_over minimax_ai_game_over)
qed

theorem no_moves_is_leaf_witness:
  "no_moves_is_game_over mock_rules (cur (new_game 6))
   \<and> moves mock_rules (cur (new_game 6)) = []
   \<and> minimax_chessAI mock_rules (new_game 6) 2 (Num (-5)) (Num 5) True = (50, new_game 6)
   \<and> minimax_ai mock_rules (new_game 6) 2 (Num (-5)) (Num 5) True = (50, new_game 6)
   \<and> minimax_chessAI mock_rules (new_game 6) 2 (Num (-5)) (Num 5) True
       = minimax_chessAI mock_rules (new_game 6) 0 (Num (-5)) (Num 5) True
   \<and> minimax_ai mock_rules (new_game 6) 2 (Num (-5)) (Num 5) True
       = minimax_ai mock_rules (new_game 6) 0 (Num (-5)) (Num 5) True"
proof -
  have h1: "no_moves_is_game_over mock_rules (cur (new_game 6))"
    by (simp add: no_moves_is_game_over_def mock_rules_def new_game_def)
  have h2: "moves mock_rules (cur (new_game 6)) = []"
    by (simp add: mock_rules_def new_game_def)
  have e: "evaluateBoard_chessAI mock_rules 6 = -50" "evaluateBoard_ai mock_rules 6 = -50"
    by code_simp+
  have c: "cur (new_game (6::nat)) = 6" by (simp add: new_game_def)
  show ?thesis
    using h1 h2 no_moves_is_leaf [OF h1 h2, of 2 "Num (-5)" "Num 5" True]
    by (simp add: e c)
qed

section \<open>The evaluator\<close>

lemma piece_value_material: "piece_value t = material t"
  by (cases t) (simp_all add: piece_value_def PIECE_VALUES_def)

lemma length_PST [simp]: "length PST_p = 64" "length PST_n = 64"
  by (simp_all add: PST_p_def PST_n_def)

lemma posScore_bonus:
  assumes "i < 8" and "j < 8"
  shows "posScore x i j = bonus x i j"
proof -
  have "i * 8 + j < 64" "(7 - i) * 8 + j < 64" using assms by simp_all
  then show ?thesis
    by (cases "ptype x"; cases "pcolor x")
       (simp_all add: posScore_def bonus_def pst_lookup_def PST_def mult.commute)
qed

lemma square_chessAI_term:
  assumes "i < 8" and "j < 8"
  shows "square_chessAI b i j tot =
         tot + (case b i j of None \<Rightarrow> 0
                | Some x \<Rightarrow> side_sign x * (material (ptype x) + bonus x i j))"
proof (cases "b i j")
  case None
  then show ?thesis by (simp add: square_chessAI_def)
next
  case (Some x)
  then show ?thesis
    by (cases "pcolor x")
       (simp_all add: square_chessAI_def side_sign_def piece_value_material
          posScore_bonus [OF assms])
qed

lemma square_ai_term:
  "square_ai b i j tot =
     tot + (case b i j of None \<Rightarrow> 0 | Some x \<Rightarrow> side_sign x * material (ptype x))"
proof (cases "b i j")
  case None
  then show ?thesis by (simp add: square_ai_def)
next
  case (Some x)
  then show ?thesis
    by (cases "pcolor x") (simp_all add: square_ai_def side_sign_def piece_value_material)
qed

lemma fold_add_upt:
  assumes "\<And>k tot. k < n \<Longrightarrow> step k tot = tot + f k"
  shows "fold step [0..<n] (a::int) = a + sum f {..<n}"
  using assms
proof (induction n)
  case 0
  show ?case by simp
next
  case (Suc n)
  then have "fold step [0..<n] a = a + sum f {..<n}" by simp
  moreover have "step n tot = tot + f n" for tot using Suc.prems by simp
  ultimately show ?case by simp
qed

lemma evaluateBoard_chessAI_spec: "evaluateBoard_chessAI R p = evaluate_spec (board R p)"
proof -
  let ?b = "board R p"
  let ?t = "\<lambda>i j. case ?b i j of None \<Rightarrow> 0
                  | Some x \<Rightarrow> side_sign x * (material (ptype x) + bonus x i j)"
  have row: "fold (\<lambda>j tot'. square_chessAI ?b i j tot') [0..<8] tot = tot + (\<Sum>j<8. ?t i j)"
    if "i < 8" for i tot
    by (rule fold_add_upt) (rule square_chessAI_term [OF that])
  have "fold (\<lambda>i tot. fold (\<lambda>j tot'. square_chessAI ?b i j tot') [0..<8] tot) [0..<8] 0
        = 0 + (\<Sum>i<8. \<Sum>j<8. ?t i j)"
    by (rule fold_add_upt) (rule row)
  then show ?thesis by (simp add: evaluateBoard_chessAI_def evaluate_spec_def)
qed

lemma evaluateBoard_ai_spec: "evaluateBoard_ai R p = material_spec (board R p)"
proof -
  let ?b = "board R p"
  let ?t = "\<lambda>i j. case ?b i j of None \<Rightarrow> 0 | Some x \<Rightarrow> side_sign x * material (ptype x)"
  have row: "fold (\<lambda>j tot'. square_ai ?b i j tot') [0..<8] tot = tot + (\<Sum>j<8. ?t i j)"
    for i tot
    by (rule fold_add_upt) (rule square_ai_term)
  have "fold (\<lambda>i tot. fold (\<lambda>j tot'. square_ai ?b i j tot') [0..<8] tot) [0..<8] 0
        = 0 + (\<Sum>i<8. \<Sum>j<8. ?t i j)"
    by (rule fold_add_upt) (rule row)
  then show ?thesis by (simp add: evaluateBoard_ai_def material_spec_def)
qed

text \<open>
  C5, as amended. \<open>evaluateBoard\<close> of \<open>lib/chessAI\<close> returns the sum over all pieces of
  the material value (pawn 10, knight 30, bishop 30, rook 50, queen 90, king 900) plus, for
  pawns and knights only, the table bonus at the square index for White and at the
  vertically mirrored index for Black, counted positive for White and negative for Black.
  \<open>evaluateBoard\<close> of \<open>lib/ai\<close> returns the signed material sum alone. Both depend on
  the board of the position only.
\<close>

theorem evaluateBoard_is_signed_sum:
  "evaluateBoard_chessAI R p = evaluate_spec (board R p)
   \<and> evaluateBoard_ai R p = material_spec (board R p)"
  by (simp add: evaluateBoard_chessAI_spec evaluateBoard_ai_spec)

lemma mock_eval_minor:
  "evaluateBoard_chessAI mock_rules 20 = -25" "evaluateBoard_ai mock_rules 20 = -20"
  by code_simp+

text \<open>
  C5, as stated, fails for \<open>lib/ai\<close>: with a white pawn on row 1 and a black knight on
  row 2 its \<open>evaluateBoard\<close> gives -20, while material plus positional bonus is -25.
\<close>

theorem evaluateBoard_ai_has_no_bonus:
  "evaluateBoard_ai mock_rules 20 \<noteq> evaluate_spec (board mock_rules 20)"
  using evaluateBoard_chessAI_spec [of mock_rules 20] by (simp add: mock_eval_minor)

lemma side_sign_swap [simp]: "side_sign (swap_side x) = - side_sign x"
  by (cases "pcolor x") (simp_all add: side_sign_def swap_side_def)

lemma ptype_swap [simp]: "ptype (swap_side x) = ptype x"
  by (simp add: swap_side_def)

lemma bonus_swap: "i < 8 \<Longrightarrow> bonus (swap_side x) i j = bonus x (7 - i) j"
  by (cases "pcolor x") (simp_all add: bonus_def swap_side_def)

lemma sum_flip8: "(\<Sum>i<8. f (7 - i)) = (\<Sum>i<(8::nat). (f i :: int))"
  using sum.nat_diff_reindex [of f 8] by simp

lemma mirrored_spec:
  assumes "color_mirrored R p q"
  shows "evaluate_spec (board R q) = - evaluate_spec (board R p)"
    and "material_spec (board R q) = - material_spec (board R p)"
proof -
  let ?t = "\<lambda>b i j. case b i j of None \<Rightarrow> 0
                  | Some x \<Rightarrow> side_sign x * (material (ptype x) + bonus x i j)"
  let ?m = "\<lambda>b i j. case b i j of None \<Rightarrow> (0::int)
                  | Some x \<Rightarrow> side_sign x * material (ptype x)"
  have sq: "board R q i j = map_option swap_side (board R p (7 - i) j)"
    if "i < 8" "j < 8" for i j
    using assms that by (simp add: color_mirrored_def)
  have t: "?t (board R q) i j = - ?t (board R p) (7 - i) j" if "i < 8" "j < 8" for i j
    by (cases "board R p (7 - i) j") (simp_all add: sq [OF that] bonus_swap [OF that(1)])
  have m: "?m (board R q) i j = - ?m (board R p) (7 - i) j" if "i < 8" "j < 8" for i j
    by (cases "board R p (7 - i) j") (simp_all add: sq [OF that])
  have "evaluate_spec (board R q) = (\<Sum>i<8. \<Sum>j<8. - ?t (board R p) (7 - i) j)"
    unfolding evaluate_spec_def by (intro sum.cong refl) (simp add: t)
  also have "\<dots> = - (\<Sum>i<8. (\<Sum>j<8. ?t (board R p) (7 - i) j))"
    by (simp add: sum_negf)
  also have "\<dots> = - (\<Sum>i<8. (\<Sum>j<8. ?t (board R p) i j))"
    by (simp only: sum_flip8 [of "\<lambda>i. \<Sum>j<8. ?t (board R p) i j"])
  finally show "evaluate_spec (board R q) = - evaluate_spec (board R p)"
    by (simp add: evaluate_spec_def)
  have "material_spec (board R q) = (\<Sum>i<8. \<Sum>j<8. - ?m (board R p) (7 - i) j)"
    unfolding material_spec_def by (intro sum.cong refl) (simp add: m)
  also have "\<dots> = - (\<Sum>i<8. (\<Sum>j<8. ?m (board R p) (7 - i) j))"
    by (simp add: sum_negf)
  also have "\<dots> = - (\<Sum>i<8. (\<Sum>j<8. ?m (board R p) i j))"
    by (simp only: sum_flip8 [of "\<lambda>i. \<Sum>j<8. ?m (board R p) i j"])
  finally show "material_spec (board R q) = - material_spec (board R p)"
    by (simp add: material_spec_def)
qed

text \<open>
  C7. If position \<open>q\<close> is the colour-mirrored counterpart of position \<open>p\<close>, then
  \<open>evaluateBoard\<close> of \<open>q\<close> is the exact negation of \<open>evaluateBoard\<close> of \<open>p\<close>, in both
  versions.
\<close>

theorem evaluateBoard_mirrored_negates:
  assumes "color_mirrored R p q"
  shows "evaluateBoard_chessAI R q = - evaluateBoard_chessAI R p
         \<and> evaluateBoard_ai R q = - evaluateBoard_ai R p"
  using mirrored_spec [OF assms]
  by (simp add: evaluateBoard_chessAI_spec evaluateBoard_ai_spec)

theorem evaluateBoard_mirrored_negates_witness:
  "color_mirrored mock_rules 20 21
   \<and> evaluateBoard_chessAI mock_rules 21 = - evaluateBoard_chessAI mock_rules 20
   \<and> evaluateBoard_ai mock_rules 21 = - evaluateBoard_ai mock_rules 20"
proof -
  have h: "color_mirrored mock_rules 20 21"
    by (simp add: color_mirrored_def mock_rules_def board_minor_mirrored_def)
  show ?thesis
    using h evaluateBoard_mirrored_negates [OF h] by simp
qed

section \<open>The move selector returns a legal move\<close>








section \<open>Ties between candidates\<close>

lemma selectLoop_ai_step:
  "selectLoop_ai R dm1 (x # xs) bm bv g =
     (if turn R (applyMove R (cur g) x) = Black
      then (if boardValue_ai R (cur g) dm1 x > bv
            then selectLoop_ai R dm1 xs (Some x) (boardValue_ai R (cur g) dm1 x) g
            else selectLoop_ai R dm1 xs bm bv g)
      else (if bm = None \<or> boardValue_ai R (cur g) dm1 x < bv
            then selectLoop_ai R dm1 xs (Some x) (boardValue_ai R (cur g) dm1 x) g
            else selectLoop_ai R dm1 xs bm bv g))"
  by (simp add: Let_def minimax_ai_score undo_move cur_move boardValue_ai_def)

lemma selectLoop_ai_keep_white:
  assumes "\<forall>x \<in> set xs. turn R (applyMove R (cur g) x) = Black"
    and "\<forall>x \<in> set xs. boardValue_ai R (cur g) dm1 x \<le> bv"
  shows "selectLoop_ai R dm1 xs bm bv g = (bm, bv, g)"
  using assms
proof (induction xs)
  case Nil
  show ?case by simp
next
  case (Cons x xs)
  then have "selectLoop_ai R dm1 xs bm bv g = (bm, bv, g)" by simp
  moreover have "turn R (applyMove R (cur g) x) = Black"
    "\<not> boardValue_ai R (cur g) dm1 x > bv"
    using Cons.prems by (simp_all add: not_less)
  ultimately show ?case by (auto simp add: selectLoop_ai_step simp del: selectLoop_ai.simps)
qed

lemma selectLoop_ai_keep_black:
  assumes "\<forall>x \<in> set xs. turn R (applyMove R (cur g) x) \<noteq> Black"
    and "bm \<noteq> None"
    and "\<forall>x \<in> set xs. bv \<le> boardValue_ai R (cur g) dm1 x"
  shows "selectLoop_ai R dm1 xs bm bv g = (bm, bv, g)"
  using assms
proof (induction xs)
  case Nil
  show ?case by simp
next
  case (Cons x xs)
  then have "selectLoop_ai R dm1 xs bm bv g = (bm, bv, g)" by simp
  moreover have "turn R (applyMove R (cur g) x) \<noteq> Black"
    "\<not> (bm = None \<or> boardValue_ai R (cur g) dm1 x < bv)"
    using Cons.prems by (simp_all add: not_less)
  ultimately show ?case by (auto simp add: selectLoop_ai_step simp del: selectLoop_ai.simps)
qed

lemma getBestMove_ai_first_tied:
  assumes nb: "difficulty \<noteq> Beginner"
    and alt: "turns_alternate R (cur g)"
    and perm: "mset (sort_outcome rnd (moves R (cur g))) = mset (moves R (cur g))"
    and sh: "sort_outcome rnd (moves R (cur g)) = m # rest"
    and tied: "none_better_ai R (cur g) (depth_ai difficulty - 1) m rest"
  shows "fst (getBestMove_ai R rnd g difficulty) = Some m"
proof -
  define dm1 where "dm1 = depth_ai difficulty - 1"
  define p where "p = cur g"
  let ?v = "boardValue_ai R p dm1"
  have set_eq: "set (m # rest) = set (moves R p)"
    using mset_eq_setD [OF perm] by (simp add: sh p_def)
  then have ne: "moves R p \<noteq> []" by auto
  have child: "turn R (applyMove R p x) = opposite (turn R p)" if "x \<in> set (m # rest)" for x
    using alt that unfolding set_eq by (simp add: turns_alternate_def p_def)
  have res: "fst (getBestMove_ai R rnd g difficulty) =
             (let bm = fst (selectLoop_ai R dm1 (m # rest) None (-9999) g)
              in if bm = None \<or> bm = Some [] then Some m else bm)"
    using nb ne unfolding getBestMove_ai_def Let_def dm1_def p_def
    by (simp add: sh split: prod.split)
  have loop: "fst (selectLoop_ai R dm1 (m # rest) None (-9999) g) = None
              \<or> fst (selectLoop_ai R dm1 (m # rest) None (-9999) g) = Some m"
  proof (cases "turn R p")
    case White
    then have ch: "\<forall>x \<in> set (m # rest). turn R (applyMove R (cur g) x) = Black"
      using child by (simp add: p_def)
    from tied White have le: "\<forall>x \<in> set rest. ?v x \<le> ?v m"
      by (simp add: none_better_ai_def list_all_iff dm1_def p_def)
    show ?thesis
    proof (cases "?v m > -9999")
      case True
      have "selectLoop_ai R dm1 rest (Some m) (?v m) g = (Some m, ?v m, g)"
        using ch le by (intro selectLoop_ai_keep_white) (simp_all add: p_def)
      with True ch show ?thesis
        by (simp add: selectLoop_ai_step p_def del: selectLoop_ai.simps)
    next
      case False
      then have "\<forall>x \<in> set rest. ?v x \<le> -9999" using le by fastforce
      then have "selectLoop_ai R dm1 rest None (-9999) g = (None, -9999, g)"
        using ch by (intro selectLoop_ai_keep_white) (simp_all add: p_def)
      with False ch show ?thesis
        by (simp add: selectLoop_ai_step p_def del: selectLoop_ai.simps)
    qed
  next
    case Black
    then have ch: "\<forall>x \<in> set (m # rest). turn R (applyMove R (cur g) x) \<noteq> Black"
      using child by (simp add: p_def)
    from tied Black have le: "\<forall>x \<in> set rest. ?v m \<le> ?v x"
      by (simp add: none_better_ai_def list_all_iff dm1_def p_def)
    have "selectLoop_ai R dm1 rest (Some m) (?v m) g = (Some m, ?v m, g)"
      using ch le by (intro selectLoop_ai_keep_black) (simp_all add: p_def)
    with ch show ?thesis
      by (simp add: selectLoop_ai_step p_def del: selectLoop_ai.simps)
  qed
  from loop show ?thesis unfolding res Let_def by auto
qed

lemma getBestMove_chessAI_no_random:
  "difficulty \<noteq> Beginner \<Longrightarrow>
   getBestMove_chessAI R rnd1 g difficulty = getBestMove_chessAI R rnd2 g difficulty"
  by (simp add: getBestMove_chessAI_def Let_def)

text \<open>
  C4, as amended. In \<open>lib/ai\<close>, at a tier other than Beginner, \<open>getBestMove\<close> scores the
  candidates in the order the random sort leaves them, and returns the first candidate of
  that order when no later candidate is strictly better for the side to move. So two runs
  whose shuffles put different tied-best candidates first return different moves. In
  \<open>lib/chessAI\<close> nothing is shuffled: the returned move and game object do not depend on
  the random source.
\<close>

theorem shuffle_decides_ties_in_ai_only:
  assumes "difficulty \<noteq> Beginner"
    and "turns_alternate R (cur g)"
    and "random_ok rnd1 (moves R (cur g))"
    and "random_ok rnd2 (moves R (cur g))"
    and "sort_outcome rnd1 (moves R (cur g)) = m1 # rest1"
    and "sort_outcome rnd2 (moves R (cur g)) = m2 # rest2"
    and "none_better_ai R (cur g) (depth_ai difficulty - 1) m1 rest1"
    and "none_better_ai R (cur g) (depth_ai difficulty - 1) m2 rest2"
    and "m1 \<noteq> m2"
  shows "fst (getBestMove_ai R rnd1 g difficulty) = Some m1
       \<and> fst (getBestMove_ai R rnd2 g difficulty) = Some m2
       \<and> fst (getBestMove_ai R rnd1 g difficulty) \<noteq> fst (getBestMove_ai R rnd2 g difficulty)
       \<and> getBestMove_chessAI R rnd1 g difficulty = getBestMove_chessAI R rnd2 g difficulty"
proof -
  have p1: "mset (sort_outcome rnd1 (moves R (cur g))) = mset (moves R (cur g))"
    and p2: "mset (sort_outcome rnd2 (moves R (cur g))) = mset (moves R (cur g))"
    using assms(3,4) by (simp_all add: random_ok_def)
  have r1: "fst (getBestMove_ai R rnd1 g difficulty) = Some m1"
    by (rule getBestMove_ai_first_tied [OF assms(1,2) p1 assms(5,7)])
  have r2: "fst (getBestMove_ai R rnd2 g difficulty) = Some m2"
    by (rule getBestMove_ai_first_tied [OF assms(1,2) p2 assms(6,8)])
  from r1 r2 assms(9) getBestMove_chessAI_no_random [OF assms(1)] show ?thesis
    by simp
qed

lemma mock_tie:
  "none_better_ai mock_rules 10 1 ''Kd1'' [''Kf1'']"
  "none_better_ai mock_rules 10 1 ''Kf1'' [''Kd1'']"
  by code_simp+

theorem shuffle_decides_ties_in_ai_only_witness:
  "fst (getBestMove_ai mock_rules rnd_keep (new_game 10) Easy) = Some ''Kd1''
   \<and> fst (getBestMove_ai mock_rules rnd_reverse (new_game 10) Easy) = Some ''Kf1''
   \<and> fst (getBestMove_ai mock_rules rnd_keep (new_game 10) Easy)
       \<noteq> fst (getBestMove_ai mock_rules rnd_reverse (new_game 10) Easy)
   \<and> getBestMove_chessAI mock_rules rnd_keep (new_game 10) Easy
       = getBestMove_chessAI mock_rules rnd_reverse (new_game 10) Easy"
proof (rule shuffle_decides_ties_in_ai_only)
  show "Easy \<noteq> Beginner" by simp
  show "turns_alternate mock_rules (cur (new_game 10))"
    by (simp add: turns_alternate_def mock_rules_def new_game_def)
  show "random_ok rnd_keep (moves mock_rules (cur (new_game 10)))"
    by (simp add: random_ok_def rnd_keep_def)
  show "random_ok rnd_reverse (moves mock_rules (cur (new_game 10)))"
    by (simp add: random_ok_def rnd_reverse_def)
  show "sort_outcome rnd_keep (moves mock_rules (cur (new_game 10))) = ''Kd1'' # [''Kf1'']"
    by (simp add: rnd_keep_def mock_rules_def new_game_def)
  show "sort_outcome rnd_reverse (moves mock_rules (cur (new_game 10))) = ''Kf1'' # [''Kd1'']"
    by (simp add: rnd_reverse_def mock_rules_def new_game_def)
  show "none_better_ai mock_rules (cur (new_game 10)) (depth_ai Easy - 1) ''Kd1'' [''Kf1'']"
    using mock_tie(1) by (simp add: new_game_def)
  show "none_better_ai mock_rules (cur (new_game 10)) (depth_ai Easy - 1) ''Kf1'' [''Kd1'']"
    using mock_tie(2) by (simp add: new_game_def)
  show "''Kd1'' \<noteq> ''Kf1''" by simp
qed

text \<open>
  C4, as stated, fails for \<open>lib/chessAI\<close>: at position 10, where the two candidates are
  tied, no two random sources make \<open>getBestMove\<close> return different moves.
\<close>

theorem chessAI_ignores_the_random_sequence:
  "\<not> (\<exists>rnd1 rnd2. fst (getBestMove_chessAI mock_rules rnd1 (new_game 10) Easy)
                    \<noteq> fst (getBestMove_chessAI mock_rules rnd2 (new_game 10) Easy))"
  by (simp add: getBestMove_chessAI_def Let_def)

section \<open>The move selector does not throw\<close>






















end
